theory Spec2Isabelle
  imports Main
begin

section \<open>Common values\<close>

text \<open>
  A rejected promise or a thrown exception is a value. \<open>TypeError\<close> is what JavaScript
  throws when a property of \<open>undefined\<close> is read; \<open>Rejected\<close> stands for the rejection of
  a promise returned by a function of another module or of a library.
\<close>

datatype js_error = TypeError | Rejected

section \<open>storage/index.ts: the schema-versioned store\<close>

subsection \<open>Plain objects used as table schemas\<close>

text \<open>
  A Dexie schema object maps a table name to its index specification string. It is kept as
  an association list in property order. \<open>setProp\<close> is the assignment \<open>o[k] = v\<close>: an
  existing property keeps its position, a new one goes last. \<open>Object_assign target source\<close>
  copies every property of \<open>source\<close> onto \<open>target\<close> in order and yields the target.
\<close>

type_synonym schemaObj = "(string \<times> string) list"

fun setProp :: "string \<Rightarrow> string \<Rightarrow> schemaObj \<Rightarrow> schemaObj" where
  "setProp k v [] = [(k, v)]"
| "setProp k v ((k', v') # ps) = (if k' = k then (k, v) # ps else (k', v') # setProp k v ps)"

definition Object_assign :: "schemaObj \<Rightarrow> schemaObj \<Rightarrow> schemaObj" where
  "Object_assign target source = fold (\<lambda>(k, v) t. setProp k v t) source target"

subsection \<open>Tables and the database\<close>

text \<open>
  The database is the list \<open>this.tables\<close>; a table has a name and its stored records.
\<close>

record 'r table =
  name :: string
  rows :: "'r list"

type_synonym 'r db = "'r table list"

subsection \<open>Schema history and registered versions\<close>

text \<open>
  One entry of the history handed to \<open>_initSchema\<close>: \<open>{ version, schema, migrations }\<close>.
  The migrations are never called, so their type is left open.
\<close>

record 'm DexieSchema =
  version :: int
  schema :: schemaObj
  migrations :: "'m list"

text \<open>
  A call \<open>this.version(n).stores(s)\<close>, optionally followed by \<open>.upgrade(cb)\<close>, is recorded
  as one registration: the version number, the contents of the schema object at the time
  of the call, and the upgrade callback. Every call is handed the same object, which later
  entries write into; a registration holds what it contained when handed over. The callback is a closure over the entry's
  \<open>migrations\<close> and nothing else, so it is recorded as that list (\<open>None\<close>: no callback);
  \<open>upgradeCallback\<close> below is its body and \<open>runUpgrade\<close> calls it.
\<close>

record 'm registration =
  ver :: int
  stores :: schemaObj
  upgrade :: "'m list option"

definition baseVersion :: int where
  "baseVersion = 1"

definition baseSchema :: schemaObj where
  "baseSchema =
     [(''pages'', ''url, *terms, *titleTerms, *urlTerms, domain, hostname''),
      (''visits'', ''[time+url], url''),
      (''bookmarks'', ''url, time''),
      (''tags'', ''[name+url], name, url''),
      (''favIcons'', ''hostname'')]"

text \<open>
  The upgrade callback: \<open>migrations.forEach(migration => { })\<close>. The loop body is empty
  (a TODO in the source), so each iteration hands the database on as it is.
\<close>

definition upgradeCallback :: "'m list \<Rightarrow> 'r db \<Rightarrow> 'r db" where
  "upgradeCallback ms d = fold (\<lambda>migration d'. d') ms d"

text \<open>
  Running the upgrade of a registered version on a database: the callback is called if
  one was registered.
\<close>

definition runUpgrade :: "'m registration \<Rightarrow> 'r db \<Rightarrow> 'r db" where
  "runUpgrade reg d = (case upgrade reg of None \<Rightarrow> d | Some ms \<Rightarrow> upgradeCallback ms d)"

text \<open>
  Version numbers are JavaScript numbers, that is IEEE doubles; a version is taken to be
  an integer-valued finite double and is kept as an \<open>int\<close>. \<open>roundDouble\<close> rounds an
  integer to the nearest double: integers up to \<open>2^53\<close> in magnitude are doubles; beyond,
  only 53 leading bits are kept, rounding to nearest with ties going to the even
  significand. \<open>jsAdd\<close> is the addition \<open>a + b\<close> of two such numbers. (The sum with
  \<open>baseVersion\<close> never reaches infinity: the largest finite double plus one rounds to
  itself.)
\<close>

fun bitlen :: "nat \<Rightarrow> nat" where
  "bitlen n = (if n = 0 then 0 else Suc (bitlen (n div 2)))"

declare bitlen.simps [simp del]

definition roundDouble :: "int \<Rightarrow> int" where
  "roundDouble x =
     (let a = nat \<bar>x\<bar>
      in if a \<le> 2 ^ 53 then x
         else
           (let e = bitlen a - 53;
                q = a div 2 ^ e;
                r = a mod 2 ^ e;
                half = 2 ^ (e - 1);
                q' = (if half < r \<or> (r = half \<and> odd q) then q + 1 else q)
            in sgn x * int (q' * 2 ^ e)))"

definition jsAdd :: "int \<Rightarrow> int \<Rightarrow> int" where
  "jsAdd a b = roundDouble (a + b)"

text \<open>
  The body of \<open>dexieHistory.forEach\<close>. \<open>Object.assign(baseSchema, schema)\<close> writes into
  \<open>baseSchema\<close> itself, so the first argument carries the object's current contents from
  one entry to the next.
\<close>

fun registerHistory :: "schemaObj \<Rightarrow> 'm DexieSchema list \<Rightarrow> 'm registration list" where
  "registerHistory base [] = []"
| "registerHistory base (e # es) =
     (let finalVersion = jsAdd baseVersion (version e);
          finalSchema = Object_assign base (schema e)
      in \<lparr>ver = finalVersion, stores = finalSchema,
           upgrade = Some (migrations e)\<rparr>
         # registerHistory finalSchema es)"

text \<open>
  \<open>_initSchema\<close>: an absent history (\<open>dexieHistory || []\<close>) counts as empty; the base
  schema is registered first, without an upgrade callback, then one version per entry.
  The result is the sequence of registrations in call order.
\<close>

definition initSchema :: "'m DexieSchema list option \<Rightarrow> 'm registration list" where
  "initSchema dexieHistory =
     (let h = (case dexieHistory of None \<Rightarrow> [] | Some h' \<Rightarrow> h')
      in \<lparr>ver = baseVersion, stores = baseSchema, upgrade = None\<rparr>
         # registerHistory baseSchema h)"

text \<open>
  Dexie's schema syntax (the page the source comment points to): the first comma-separated
  item of a table's specification is its primary key.
\<close>

definition primaryKey :: "string \<Rightarrow> string" where
  "primaryKey spec = takeWhile (\<lambda>c. c \<noteq> CHR '','') spec"

text \<open>
  \<open>clearData\<close>: \<open>for (const table of this.tables) await table.clear()\<close>. The tables are
  cleared one after the other; \<open>rejects\<close> says for which tables the awaited \<open>clear()\<close>
  rejects. A rejection ends the loop with the remaining tables untouched. The result is the
  database as left behind and the outcome (\<open>None\<close> when the promise resolves).
\<close>

fun clearData :: "('r table \<Rightarrow> bool) \<Rightarrow> 'r db \<Rightarrow> 'r db \<times> js_error option" where
  "clearData rejects [] = ([], None)"
| "clearData rejects (t # ts) =
     (if rejects t then (t # ts, Some Rejected)
      else (let (ts', outcome) = clearData rejects ts
            in (t\<lparr>rows := []\<rparr> # ts', outcome)))"

section \<open>import.ts: importing an exported page\<close>

text \<open>
  A visit of an exported page: its timestamp and, in \<open>meta\<close>, its other own properties
  in order (what the rest pattern \<open>{ timestamp, ...visit }\<close> binds to \<open>visit\<close>).
\<close>

record ('t, 'v) ExportedPageVisit =
  timestamp :: 't
  meta :: "(string \<times> 'v) list"

text \<open>
  The argument has type \<open>Partial<ExportedPage>\<close>: every property may be absent, and an
  absent property reads as \<open>undefined\<close>, here \<open>None\<close>. The property \<open>text\<close> is named
  \<open>text_prop\<close>.
\<close>

record ('b, 't, 'v) ExportedPage =
  url :: "string option"
  fullUrl :: "string option"
  fullTitle :: "string option"
  text_prop :: "string option"
  screenshotURI :: "string option"
  favIconURI :: "string option"
  bookmark :: "'b option"
  visits :: "('t, 'v) ExportedPageVisit list option"
  tags :: "string list option"

text \<open>The object literal handed to \<open>addPage\<close>.\<close>

record pageContent =
  fullText :: "string option"
  title :: "string option"

record pageDoc =
  content :: pageContent
  doc_url :: "string option"
  doc_screenshotURI :: "string option"
  doc_favIconURI :: "string option"

record ('b, 't) addPageArgs =
  pageDoc :: pageDoc
  arg_bookmark :: "'b option"
  arg_visits :: "'t list"

text \<open>
  \<open>addPage\<close>, \<open>addTag\<close> and \<open>updateTimestampMeta\<close> are imported from another module;
  \<open>importPage\<close> is described by the calls it makes to them, in the order it makes them.
\<close>

datatype ('b, 't, 'v) call =
    AddPage "('b, 't) addPageArgs"
  | AddTag "string option" string
  | UpdateTimestampMeta "string option" 't "(string \<times> 'v) list"

text \<open>
  The callback of the second \<open>page.visits.map\<close>: a call of \<open>updateTimestampMeta\<close> when
  \<open>Object.keys(visit).length > 0\<close>, the resolved promise (no call) otherwise.
\<close>

definition visitMetaCalls ::
  "string option \<Rightarrow> ('t, 'v) ExportedPageVisit \<Rightarrow> ('b, 't, 'v) call list" where
  "visitMetaCalls u visit =
     (if length (meta visit) > 0 then [UpdateTimestampMeta u (timestamp visit) (meta visit)]
      else [])"

text \<open>
  The object literal built as the argument of \<open>addPage\<close>; \<open>vs\<close> is \<open>page.visits\<close>.
\<close>

definition addPageArg ::
  "('b, 't, 'v) ExportedPage \<Rightarrow> ('t, 'v) ExportedPageVisit list \<Rightarrow> ('b, 't) addPageArgs" where
  "addPageArg page vs =
     \<lparr>pageDoc =
        \<lparr>content = \<lparr>fullText = text_prop page, title = fullTitle page\<rparr>,
         doc_url = fullUrl page,
         doc_screenshotURI = screenshotURI page,
         doc_favIconURI = favIconURI page\<rparr>,
      arg_bookmark = bookmark page,
      arg_visits = map (\<lambda>visit. timestamp visit) vs\<rparr>"

text \<open>
  \<open>importPage\<close>. \<open>rejects\<close> says which calls return a promise that rejects. The result is
  the list of calls made and the outcome of the returned promise.
  \<^item> \<open>page.visits.map\<close> is evaluated while the argument of \<open>addPage\<close> is built, so an
    absent \<open>visits\<close> throws before \<open>addPage\<close> is called.
  \<^item> \<open>await addPage(...)\<close>: a rejection ends the function.
  \<^item> \<open>page.tags.map\<close> throws when \<open>tags\<close> is absent; otherwise every \<open>addTag\<close> is
    called before \<open>Promise.all\<close> is awaited, and one rejection rejects the whole.
  \<^item> the same for the metadata updates.
\<close>

definition importPage ::
  "(('b, 't, 'v) call \<Rightarrow> bool) \<Rightarrow> ('b, 't, 'v) ExportedPage
     \<Rightarrow> ('b, 't, 'v) call list \<times> js_error option" where
  "importPage rejects page =
     (case visits page of
        None \<Rightarrow> ([], Some TypeError)
      | Some vs \<Rightarrow>
          (let pageCall = AddPage (addPageArg page vs)
           in if rejects pageCall then ([pageCall], Some Rejected)
              else
                (case tags page of
                   None \<Rightarrow> ([pageCall], Some TypeError)
                 | Some ts \<Rightarrow>
                     (let tagCalls = map (\<lambda>tag. AddTag (url page) tag) ts
                      in if list_ex rejects tagCalls
                         then (pageCall # tagCalls, Some Rejected)
                         else
                           (let metaCalls = concat (map (visitMetaCalls (url page)) vs)
                            in (pageCall # tagCalls @ metaCalls,
                                if list_ex rejects metaCalls then Some Rejected
                                else None))))))"

section \<open>IndexDropdownContainer: the tag and domain dropdown\<close>

datatype source_kind = Tag | Domain

record Props =
  source :: source_kind
  props_url :: "string option"
  tabId :: "int option"

record State =
  searchVal :: string
  isLoading :: bool
  displayFilters :: "string list"
  filters :: "string list"
  focused :: int

record displayTag =
  tag_value :: string
  tag_active :: bool
  tag_focused :: bool

text \<open>
  What a handler does besides updating the state: the remote calls and the callbacks of
  the props, in call order.
\<close>

datatype effect =
    AddTagRPC "string option" string "int option"
  | DelTagRPC "string option" string "int option"
  | OnFilterAdd string
  | OnFilterDel string
  | UpdateLastActive

definition allowIndexUpdate :: "Props \<Rightarrow> bool" where
  "allowIndexUpdate p = (props_url p \<noteq> None)"

definition pageHasTag :: "State \<Rightarrow> string \<Rightarrow> bool" where
  "pageHasTag s v = (v \<in> set (filters s))"

definition getDisplayTags :: "State \<Rightarrow> displayTag list" where
  "getDisplayTags s =
     map (\<lambda>(i, v). \<lparr>tag_value = v, tag_active = pageHasTag s v,
                     tag_focused = (focused s = int i)\<rparr>)
         (enumerate 0 (displayFilters s))"

text \<open>\<open>Array.prototype.findIndex\<close>: the first index whose element passes, or \<open>-1\<close>.\<close>

fun findIndex :: "('a \<Rightarrow> bool) \<Rightarrow> 'a list \<Rightarrow> int" where
  "findIndex P [] = - 1"
| "findIndex P (x # xs) =
     (if P x then 0
      else (let r = findIndex P xs in if r = - 1 then - 1 else r + 1))"

text \<open>
  \<open>Array.prototype.slice(start, end)\<close>: a negative bound counts from the end, and both
  bounds are clamped to the array.
\<close>

definition slice :: "'a list \<Rightarrow> int \<Rightarrow> int \<Rightarrow> 'a list" where
  "slice xs start end' =
     (let len = int (length xs);
          k = (if start < 0 then max (len + start) 0 else min start len);
          final = (if end' < 0 then max (len + end') 0 else min end' len)
      in take (nat (final - k)) (drop (nat k) xs))"

definition slice_from :: "'a list \<Rightarrow> int \<Rightarrow> 'a list" where
  "slice_from xs start = slice xs start (int (length xs))"

text \<open>
  \<open>handleTagSelection(index)\<close>. Reading \<open>.value\<close> of \<open>getDisplayTags()[index]\<close> throws
  when the index is outside the displayed tags. The state update
  \<open>setState(state => ...)\<close> is applied to the state the handler was called in.
\<close>

definition handleTagSelection ::
  "Props \<Rightarrow> int \<Rightarrow> State \<Rightarrow> js_error + (effect list \<times> State)" where
  "handleTagSelection p index s =
     (if index < 0 \<or> int (length (getDisplayTags s)) \<le> index then Inl TypeError
      else
        (let tag = tag_value (getDisplayTags s ! nat index);
             tagIndex = findIndex (\<lambda>val. val = tag) (filters s)
         in if tagIndex = - 1
            then Inr ((if allowIndexUpdate p then [AddTagRPC (props_url p) tag (tabId p)]
                       else [])
                      @ [OnFilterAdd tag, UpdateLastActive],
                      s\<lparr>filters := tag # filters s, focused := index\<rparr>)
            else Inr ((if allowIndexUpdate p then [DelTagRPC (props_url p) tag (tabId p)]
                       else [])
                      @ [OnFilterDel tag, UpdateLastActive],
                      s\<lparr>filters := slice (filters s) 0 tagIndex
                                    @ slice_from (filters s) (tagIndex + 1),
                        focused := index\<rparr>)))"

section \<open>Example data\<close>

text \<open>Concrete inputs on which the theorems below are instantiated.\<close>

definition example_history :: "string DexieSchema list" where
  "example_history =
     [\<lparr>version = 1, schema = [(''pages'', ''url, *terms''), (''lists'', ''id'')],
       migrations = [''addLists'']\<rparr>,
      \<lparr>version = 2, schema = [(''lists'', ''id, name'')], migrations = []\<rparr>]"

definition history_v0 :: "string DexieSchema list" where
  "history_v0 = [\<lparr>version = 0, schema = [], migrations = []\<rparr>]"

definition history_big :: "string DexieSchema list" where
  "history_big =
     [\<lparr>version = 9007199254740991, schema = [], migrations = []\<rparr>,
      \<lparr>version = 9007199254740992, schema = [], migrations = []\<rparr>]"

definition example_db :: "string db" where
  "example_db =
     [\<lparr>name = ''pages'', rows = [''a.com/x'', ''b.org'']\<rparr>,
      \<lparr>name = ''visits'', rows = []\<rparr>,
      \<lparr>name = ''bookmarks'', rows = [''b.org'']\<rparr>,
      \<lparr>name = ''tags'', rows = [''news'']\<rparr>,
      \<lparr>name = ''favIcons'', rows = [''a.com'']\<rparr>]"

definition visit_plain :: "(int, int) ExportedPageVisit" where
  "visit_plain = \<lparr>timestamp = 10, meta = []\<rparr>"

definition visit_meta :: "(int, int) ExportedPageVisit" where
  "visit_meta = \<lparr>timestamp = 20, meta = [(''duration'', 3)]\<rparr>"

definition example_page :: "(int, int, int) ExportedPage" where
  "example_page =
     \<lparr>url = Some ''a.com/x'', fullUrl = Some ''https://a.com/x'', fullTitle = Some ''A'',
      text_prop = Some ''hello'', screenshotURI = None, favIconURI = Some ''data:icon'',
      bookmark = Some 5,
      visits = Some [visit_plain, visit_meta],
      tags = Some [''news'', ''tech'']\<rparr>"

definition page_without_tags :: "(int, int, int) ExportedPage" where
  "page_without_tags = example_page\<lparr>tags := None\<rparr>"

definition never_rejects :: "(int, int, int) call \<Rightarrow> bool" where
  "never_rejects c = False"

definition example_state :: State where
  "example_state =
     \<lparr>searchVal = ''ne'', isLoading = False, displayFilters = [''tech'', ''news''],
      filters = [''tech'', ''art''], focused = 0\<rparr>"

definition example_props :: Props where
  "example_props = \<lparr>source = Tag, props_url = Some ''a.com/x'', tabId = Some 3\<rparr>"

section \<open>Schema registration\<close>

lemma roundDouble_exact: "\<bar>x\<bar> \<le> 2 ^ 53 \<Longrightarrow> roundDouble x = x"
proof -
  assume "\<bar>x\<bar> \<le> 2 ^ 53"
  then have "nat \<bar>x\<bar> \<le> 2 ^ 53" by simp
  then show ?thesis by (simp add: roundDouble_def)
qed

lemma jsAdd_exact: "\<bar>a + b\<bar> \<le> 2 ^ 53 \<Longrightarrow> jsAdd a b = a + b"
  by (simp only: jsAdd_def roundDouble_exact)

lemma jsAdd_baseVersion: "\<bar>v\<bar> < 2 ^ 53 \<Longrightarrow> jsAdd baseVersion v = 1 + v"
  by (rule trans [OF jsAdd_exact]) (simp_all add: baseVersion_def)

lemma length_registerHistory: "length (registerHistory b es) = length es"
  by (induction es arbitrary: b) (simp_all add: Let_def)

lemma registerHistory_nth:
  "i < length es \<Longrightarrow>
     ver (registerHistory b es ! i) = jsAdd baseVersion (version (es ! i)) \<and>
     stores (registerHistory b es ! i) = foldl Object_assign b (map schema (take (Suc i) es))"
proof (induction es arbitrary: b i)
  case Nil
  then show ?case by simp
next
  case (Cons e es)
  show ?case
  proof (cases i)
    case 0
    then show ?thesis by (simp add: Let_def)
  next
    case (Suc j)
    with Cons.prems have "j < length es" by simp
    from Cons.IH [OF this, of "Object_assign b (schema e)"] Suc
    show ?thesis by (simp add: Let_def)
  qed
qed

text \<open>
  Looking a table up in a merged schema: the target's entry unless the merged-in object
  has one. (Should a list hold a name twice, the later entry is the one assigned last.)
\<close>

lemma map_of_setProp: "map_of (setProp k v ps) = (map_of ps)(k \<mapsto> v)"
  by (induction ps) auto

lemma map_of_fold_setProp:
  "map_of (fold (\<lambda>(k, v) t. setProp k v t) s t) = map_of t ++ map_of (rev s)"
proof (induction s arbitrary: t)
  case Nil
  then show ?case by simp
next
  case (Cons q s)
  obtain k v where q: "q = (k, v)" by (cases q)
  have "map_of (fold (\<lambda>(k, v) t. setProp k v t) (q # s) t)
        = map_of (setProp k v t) ++ map_of (rev s)"
    using Cons.IH [of "setProp k v t"] q by simp
  also have "\<dots> = map_of t ++ map_of (rev (q # s))"
    by (simp add: map_of_setProp q)
  finally show ?case .
qed

lemma map_of_Object_assign:
  "map_of (Object_assign t s) = map_of t ++ map_of (rev s)"
  by (simp add: Object_assign_def map_of_fold_setProp)

lemma map_of_foldl_Object_assign:
  "map_of (foldl Object_assign b ss) = foldl (\<lambda>m s. m ++ map_of (rev s)) (map_of b) ss"
  by (induction ss arbitrary: b) (simp_all add: map_of_Object_assign)

text \<open>
  C1. For every schema history, the registration made for the \<open>i\<close>-th entry carries
  version \<open>baseVersion + v\<^sub>i\<close> as JavaScript adds them, which is \<open>1 + v\<^sub>i\<close> for every
  \<open>v\<^sub>i\<close> of magnitude below \<open>2^53\<close>, and its schema is the base schema with the schema changes of the
  entries \<open>0, \<dots>, i\<close> merged in, in that order: looked up by table name, it gives the
  specification of the latest of these entries that mentions the table, and the base
  specification when none does.
\<close>

theorem initSchema_cumulative_schema:
  assumes "i < length h"
  shows "ver (initSchema (Some h) ! Suc i) = jsAdd baseVersion (version (h ! i)) \<and>
         (\<bar>version (h ! i)\<bar> < 2 ^ 53 \<longrightarrow>
            ver (initSchema (Some h) ! Suc i) = 1 + version (h ! i)) \<and>
         stores (initSchema (Some h) ! Suc i)
           = foldl Object_assign baseSchema (map schema (take (Suc i) h)) \<and>
         map_of (stores (initSchema (Some h) ! Suc i))
           = foldl (\<lambda>m s. m ++ map_of (rev s)) (map_of baseSchema)
               (map schema (take (Suc i) h))"
proof -
  let ?r = "initSchema (Some h) ! Suc i"
  have nth: "?r = registerHistory baseSchema h ! i"
    by (simp add: initSchema_def)
  from registerHistory_nth [OF assms, of baseSchema]
  have v: "ver ?r = jsAdd baseVersion (version (h ! i))"
    and s: "stores ?r = foldl Object_assign baseSchema (map schema (take (Suc i) h))"
    unfolding nth by simp_all
  have x: "ver ?r = 1 + version (h ! i)" if "\<bar>version (h ! i)\<bar> < 2 ^ 53"
    unfolding v using that by (rule jsAdd_baseVersion)
  have m: "map_of (stores ?r)
           = foldl (\<lambda>m s. m ++ map_of (rev s)) (map_of baseSchema)
               (map schema (take (Suc i) h))"
    unfolding s by (rule map_of_foldl_Object_assign)
  from v x s m show ?thesis by blast
qed

theorem initSchema_cumulative_schema_witness:
  "Suc 0 < length example_history \<and>
   ver (initSchema (Some example_history) ! Suc (Suc 0)) = 3 \<and>
   stores (initSchema (Some example_history) ! Suc (Suc 0))
     = [(''pages'', ''url, *terms''), (''visits'', ''[time+url], url''),
        (''bookmarks'', ''url, time''), (''tags'', ''[name+url], name, url''),
        (''favIcons'', ''hostname''), (''lists'', ''id, name'')]"
  using initSchema_cumulative_schema [of "Suc 0" example_history]
  by (simp add: example_history_def Object_assign_def baseSchema_def)

lemma registerHistory_upgrade:
  "i < length es \<Longrightarrow> upgrade (registerHistory b es ! i) = Some (migrations (es ! i))"
proof (induction es arbitrary: b i)
  case Nil
  then show ?case by simp
next
  case (Cons e es)
  then show ?case by (cases i) (simp_all add: Let_def)
qed

lemma upgradeCallback_id: "upgradeCallback ms d = d"
  unfolding upgradeCallback_def by (induction ms) simp_all

text \<open>
  C2. Every version registered beyond the base version has an upgrade callback, built
  from its entry's migrations; the callback walks that list and returns the database as
  it was, so running the upgrade leaves every record of every table unchanged.
\<close>

theorem upgrade_applies_no_transformation:
  assumes "i < length h"
  shows "upgrade (initSchema (Some h) ! Suc i) = Some (migrations (h ! i)) \<and>
         upgradeCallback (migrations (h ! i)) d = d \<and>
         runUpgrade (initSchema (Some h) ! Suc i) d = d"
proof -
  have u: "upgrade (initSchema (Some h) ! Suc i) = Some (migrations (h ! i))"
    using registerHistory_upgrade [OF assms] by (simp add: initSchema_def)
  then show ?thesis
    by (simp add: runUpgrade_def upgradeCallback_id)
qed

theorem upgrade_applies_no_transformation_witness:
  "0 < length example_history \<and>
   upgrade (initSchema (Some example_history) ! Suc 0) = Some [''addLists''] \<and>
   upgradeCallback [''addLists''] example_db = example_db \<and>
   runUpgrade (initSchema (Some example_history) ! Suc 0) example_db = example_db"
  using upgrade_applies_no_transformation [of 0 example_history example_db]
  by (simp add: example_history_def)

text \<open>
  C4. Whatever the history, the first registration is version 1 with the base schema,
  and the base schema has exactly five tables: \<open>pages\<close> keyed on \<open>url\<close>, \<open>visits\<close> on
  \<open>[time+url]\<close>, \<open>bookmarks\<close> on \<open>url\<close>, \<open>tags\<close> on \<open>[name+url]\<close> and \<open>favIcons\<close> on
  \<open>hostname\<close>.
\<close>

theorem base_schema_five_tables:
  "ver (hd (initSchema h)) = 1 \<and>
   stores (hd (initSchema h)) = baseSchema \<and>
   map (\<lambda>(n, spec). (n, primaryKey spec)) baseSchema
     = [(''pages'', ''url''), (''visits'', ''[time+url]''), (''bookmarks'', ''url''),
        (''tags'', ''[name+url]''), (''favIcons'', ''hostname'')]"
  by (simp add: initSchema_def baseVersion_def baseSchema_def primaryKey_def)

lemma map_ver_registerHistory:
  "map ver (registerHistory b es) = map (\<lambda>e. jsAdd baseVersion (version e)) es"
  by (induction es arbitrary: b) (simp_all add: Let_def)

lemma map_ver_initSchema:
  "map ver (initSchema (Some h)) = 1 # map (\<lambda>e. jsAdd baseVersion (version e)) h"
  by (simp add: initSchema_def map_ver_registerHistory baseVersion_def)

lemma map_jsAdd_exact:
  "list_all (\<lambda>e. \<bar>version e\<bar> < 2 ^ 53) h \<Longrightarrow>
     map (\<lambda>e. jsAdd baseVersion (version e)) h = map (\<lambda>e. 1 + version e) h"
  by (induction h) (simp_all add: jsAdd_baseVersion)

lemma sorted_wrt_shift:
  "sorted_wrt (<) (map (\<lambda>e. 1 + version e) h) = sorted_wrt (<) (map version h)"
  by (induction h) auto

text \<open>
  Beyond \<open>2^53\<close> the sum is rounded: the strictly increasing versions \<open>2^53 - 1\<close> and
  \<open>2^53\<close> are both registered as \<open>2^53\<close>.
\<close>

lemma registered_versions_rounded:
  "sorted_wrt (<) (map version history_big) \<and>
   map ver (initSchema (Some history_big)) = [1, 9007199254740992, 9007199254740992]"
proof -
  have "jsAdd 1 9007199254740991 = 9007199254740992"
    by (simp add: jsAdd_def roundDouble_def)
  moreover have "jsAdd 1 9007199254740992 = 9007199254740992"
    by (simp add: jsAdd_def roundDouble_def bitlen.simps Let_def)
  ultimately show ?thesis
    by (simp add: history_big_def map_ver_initSchema baseVersion_def)
qed

text \<open>
  C5, as stated, fails: a history whose only entry has version 0 carries strictly
  increasing version numbers, yet version 1 is registered twice.
\<close>

theorem registered_versions_incrementing_counterexample:
  "sorted_wrt (<) (map version history_v0) \<and>
   map ver (initSchema (Some history_v0)) = [1, 1] \<and>
   \<not> sorted_wrt (<) (map ver (initSchema (Some history_v0)))"
proof -
  have "map ver (initSchema (Some history_v0)) = [1, 1]"
    by (simp add: map_ver_initSchema history_v0_def jsAdd_baseVersion)
  then show ?thesis by (simp add: history_v0_def)
qed

text \<open>
  C5, amended. The registered versions are 1 for the base schema and, for every history
  entry in order, \<open>baseVersion + version\<close> as JavaScript adds them; that is \<open>1 + version\<close>
  when every history version is below \<open>2^53\<close> in magnitude. In that case, when the
  history versions are strictly increasing, so are the versions registered for the
  history entries; the whole sequence, base version included, is strictly increasing
  when moreover every history version is at least 1.
\<close>

theorem registered_versions_incrementing:
  "map ver (initSchema (Some h)) = 1 # map (\<lambda>e. jsAdd baseVersion (version e)) h \<and>
   (list_all (\<lambda>e. \<bar>version e\<bar> < 2 ^ 53) h \<longrightarrow>
      map ver (initSchema (Some h)) = 1 # map (\<lambda>e. 1 + version e) h \<and>
      (sorted_wrt (<) (map version h) \<longrightarrow>
         sorted_wrt (<) (map ver (tl (initSchema (Some h)))) \<and>
         (list_all (\<lambda>e. 1 \<le> version e) h \<longrightarrow>
            sorted_wrt (<) (map ver (initSchema (Some h))))))"
proof -
  have j: "map ver (initSchema (Some h)) = 1 # map (\<lambda>e. jsAdd baseVersion (version e)) h"
    by (rule map_ver_initSchema)
  have a: "map ver (initSchema (Some h)) = 1 # map (\<lambda>e. 1 + version e) h"
    if "list_all (\<lambda>e. \<bar>version e\<bar> < 2 ^ 53) h"
    unfolding j using map_jsAdd_exact [OF that] by simp
  have t: "map ver (tl (initSchema (Some h))) = map (\<lambda>e. 1 + version e) h"
    if "list_all (\<lambda>e. \<bar>version e\<bar> < 2 ^ 53) h"
    using a [OF that] by (simp add: map_tl)
  have b: "sorted_wrt (<) (map ver (tl (initSchema (Some h))))"
    if "list_all (\<lambda>e. \<bar>version e\<bar> < 2 ^ 53) h" and "sorted_wrt (<) (map version h)"
    using that(2) unfolding t [OF that(1)] by (simp only: sorted_wrt_shift)
  have c: "sorted_wrt (<) (map ver (initSchema (Some h)))"
    if "list_all (\<lambda>e. \<bar>version e\<bar> < 2 ^ 53) h" and "sorted_wrt (<) (map version h)"
      and "list_all (\<lambda>e. 1 \<le> version e) h"
  proof -
    have "sorted_wrt (<) (map (\<lambda>e. 1 + version e) h)"
      using that(2) by (simp only: sorted_wrt_shift)
    moreover have "\<forall>x \<in> set (map (\<lambda>e. 1 + version e) h). 1 < x"
      using that(3) by (auto simp: list_all_iff)
    ultimately show ?thesis unfolding a [OF that(1)] by simp
  qed
  from j a b c show ?thesis by blast
qed

theorem registered_versions_incrementing_witness:
  "list_all (\<lambda>e. \<bar>version e\<bar> < 2 ^ 53) example_history \<and>
   map ver (initSchema (Some example_history)) = [1, 2, 3] \<and>
   sorted_wrt (<) (map version example_history) \<and>
   list_all (\<lambda>e. 1 \<le> version e) example_history \<and>
   sorted_wrt (<) (map ver (tl (initSchema (Some example_history)))) \<and>
   sorted_wrt (<) (map ver (initSchema (Some example_history)))"
proof -
  have s: "list_all (\<lambda>e. \<bar>version e\<bar> < 2 ^ 53) example_history"
    by (simp add: example_history_def)
  have i: "sorted_wrt (<) (map version example_history)"
    and p: "list_all (\<lambda>e. 1 \<le> version e) example_history"
    by (simp_all add: example_history_def)
  from registered_versions_incrementing [of example_history] s i p
  have "map ver (initSchema (Some example_history)) = 1 # map (\<lambda>e. 1 + version e) example_history"
    and "sorted_wrt (<) (map ver (tl (initSchema (Some example_history))))"
    and "sorted_wrt (<) (map ver (initSchema (Some example_history)))"
    by blast+
  with s i p show ?thesis by (simp add: example_history_def)
qed

section \<open>Clearing the database\<close>

lemma clearData_resolves:
  "\<not> list_ex rejects d \<Longrightarrow> snd (clearData rejects d) = None"
  by (induction d) (simp_all add: split_beta)

text \<open>
  C9. When \<open>clearData\<close> resolves, the database has the same tables as before and every
  one of them is empty, whatever they held.
\<close>

theorem clearData_empties_every_table:
  assumes "clearData rejects d = (d', None)"
  shows "(\<forall>t \<in> set d'. rows t = []) \<and> map name d' = map name d"
  using assms
proof (induction d arbitrary: d')
  case Nil
  then show ?case by simp
next
  case (Cons t ts)
  show ?case
  proof (cases "rejects t")
    case True
    with Cons.prems show ?thesis by simp
  next
    case False
    obtain ts' out where r: "clearData rejects ts = (ts', out)"
      by (cases "clearData rejects ts")
    with False Cons.prems have d': "d' = t\<lparr>rows := []\<rparr> # ts'" and out: "out = None"
      by simp_all
    from Cons.IH [of ts'] r out
    have "(\<forall>t \<in> set ts'. rows t = []) \<and> map name ts' = map name ts" by simp
    with d' show ?thesis by simp
  qed
qed

theorem clearData_empties_every_table_witness:
  "clearData (\<lambda>t. False) example_db
     = ([\<lparr>name = ''pages'', rows = []\<rparr>, \<lparr>name = ''visits'', rows = []\<rparr>,
         \<lparr>name = ''bookmarks'', rows = []\<rparr>, \<lparr>name = ''tags'', rows = []\<rparr>,
         \<lparr>name = ''favIcons'', rows = []\<rparr>], None) \<and>
   list_all (\<lambda>t. rows t = []) (fst (clearData (\<lambda>t. False) example_db)) \<and>
   map name (fst (clearData (\<lambda>t. False) example_db))
     = [''pages'', ''visits'', ''bookmarks'', ''tags'', ''favIcons'']"
proof -
  have r: "clearData (\<lambda>t. False) example_db
     = ([\<lparr>name = ''pages'', rows = []\<rparr>, \<lparr>name = ''visits'', rows = []\<rparr>,
         \<lparr>name = ''bookmarks'', rows = []\<rparr>, \<lparr>name = ''tags'', rows = []\<rparr>,
         \<lparr>name = ''favIcons'', rows = []\<rparr>], None)"
    by (simp add: example_db_def)
  from clearData_empties_every_table [OF r] r show ?thesis
    by (simp add: example_db_def)
qed

section \<open>Importing a page\<close>

lemma set_concat_visitMetaCalls:
  "c \<in> set (concat (map (visitMetaCalls u) vs)) \<longleftrightarrow>
     (\<exists>v \<in> set vs. meta v \<noteq> [] \<and> c = UpdateTimestampMeta u (timestamp v) (meta v))"
  by (auto simp: visitMetaCalls_def split: if_splits)

lemma concat_visitMetaCalls:
  "concat (map (visitMetaCalls u) vs)
     = map (\<lambda>v. UpdateTimestampMeta u (timestamp v) (meta v)) (filter (\<lambda>v. meta v \<noteq> []) vs)"
  by (induction vs) (simp_all add: visitMetaCalls_def)

text \<open>
  The calls made for a record that has its visits and tags, when \<open>addPage\<close> resolves.
\<close>

lemma importPage_calls:
  assumes "visits page = Some vs" and "tags page = Some ts"
    and "\<not> rejects (AddPage (addPageArg page vs))"
  shows "fst (importPage rejects page)
           = AddPage (addPageArg page vs) # map (\<lambda>tag. AddTag (url page) tag) ts
             @ (if list_ex rejects (map (\<lambda>tag. AddTag (url page) tag) ts) then []
                else concat (map (visitMetaCalls (url page)) vs))"
  using assms by (simp add: importPage_def Let_def)

text \<open>
  C3. For a record with its visits and tags, the first call is \<open>addPage\<close>, with the
  record's \<open>text\<close> as \<open>fullText\<close>, its \<open>fullTitle\<close> as \<open>title\<close>, its \<open>fullUrl\<close> as \<open>url\<close>,
  its \<open>bookmark\<close>, \<open>screenshotURI\<close> and \<open>favIconURI\<close>, and the timestamps of its visits, one
  per visit and in order. Once that call has resolved, \<open>addTag\<close> is called with the
  record's \<open>url\<close> for each of its tags, in order; whatever is called after that is a
  metadata update of one of the visits.
\<close>

theorem importPage_stores_page_then_tags:
  fixes page :: "('b, 't, 'v) ExportedPage"
  assumes "visits page = Some vs" and "tags page = Some ts"
    and "\<not> rejects (AddPage (addPageArg page vs))"
  shows "fullText (content (pageDoc (addPageArg page vs))) = text_prop page \<and>
         title (content (pageDoc (addPageArg page vs))) = fullTitle page \<and>
         doc_url (pageDoc (addPageArg page vs)) = fullUrl page \<and>
         arg_bookmark (addPageArg page vs) = bookmark page \<and>
         doc_screenshotURI (pageDoc (addPageArg page vs)) = screenshotURI page \<and>
         doc_favIconURI (pageDoc (addPageArg page vs)) = favIconURI page \<and>
         arg_visits (addPageArg page vs) = map timestamp vs \<and>
         (\<exists>rest. fst (importPage rejects page)
                    = AddPage (addPageArg page vs)
                      # map (\<lambda>tag. AddTag (url page) tag) ts @ rest \<and>
                  (\<forall>c \<in> set rest. \<exists>v \<in> set vs.
                      c = UpdateTimestampMeta (url page) (timestamp v) (meta v)))"
proof -
  define rest :: "('b, 't, 'v) call list" where
    "rest = (if list_ex rejects (map (\<lambda>tag. AddTag (url page) tag) ts) then []
             else concat (map (visitMetaCalls (url page)) vs))"
  have calls: "fst (importPage rejects page)
                 = AddPage (addPageArg page vs) # map (\<lambda>tag. AddTag (url page) tag) ts @ rest"
    unfolding rest_def by (rule importPage_calls [of page vs ts rejects, OF assms])
  have "\<exists>v \<in> set vs. c = UpdateTimestampMeta (url page) (timestamp v) (meta v)"
    if "c \<in> set rest" for c
    using that set_concat_visitMetaCalls [of c "url page" vs]
    by (auto simp: rest_def split: if_splits)
  with calls have "\<exists>rest. fst (importPage rejects page)
                    = AddPage (addPageArg page vs)
                      # map (\<lambda>tag. AddTag (url page) tag) ts @ rest \<and>
                  (\<forall>c \<in> set rest. \<exists>v \<in> set vs.
                      c = UpdateTimestampMeta (url page) (timestamp v) (meta v))"
    by blast
  then show ?thesis by (simp add: addPageArg_def)
qed

theorem importPage_stores_page_then_tags_witness:
  "visits example_page = Some [visit_plain, visit_meta] \<and>
   tags example_page = Some [''news'', ''tech''] \<and>
   (\<exists>rest. fst (importPage (\<lambda>c. False) example_page)
      = AddPage \<lparr>pageDoc = \<lparr>content = \<lparr>fullText = Some ''hello'', title = Some ''A''\<rparr>,
                    doc_url = Some ''https://a.com/x'', doc_screenshotURI = None,
                    doc_favIconURI = Some ''data:icon''\<rparr>,
                  arg_bookmark = Some 5, arg_visits = [10, 20]\<rparr>
        # [AddTag (Some ''a.com/x'') ''news'', AddTag (Some ''a.com/x'') ''tech''] @ rest)"
proof -
  have v: "visits example_page = Some [visit_plain, visit_meta]"
    and t: "tags example_page = Some [''news'', ''tech'']"
    by (simp_all add: example_page_def)
  from importPage_stores_page_then_tags
         [of example_page "[visit_plain, visit_meta]" "[''news'', ''tech'']" "\<lambda>c. False",
          OF v t]
  have "\<exists>rest. fst (importPage (\<lambda>c. False) example_page)
          = AddPage (addPageArg example_page [visit_plain, visit_meta])
            # map (\<lambda>tag. AddTag (url example_page) tag) [''news'', ''tech''] @ rest"
    by blast
  then have "\<exists>rest. fst (importPage (\<lambda>c. False) example_page)
      = AddPage \<lparr>pageDoc = \<lparr>content = \<lparr>fullText = Some ''hello'', title = Some ''A''\<rparr>,
                    doc_url = Some ''https://a.com/x'', doc_screenshotURI = None,
                    doc_favIconURI = Some ''data:icon''\<rparr>,
                  arg_bookmark = Some 5, arg_visits = [10, 20]\<rparr>
        # [AddTag (Some ''a.com/x'') ''news'', AddTag (Some ''a.com/x'') ''tech''] @ rest"
    by (simp add: addPageArg_def example_page_def visit_plain_def visit_meta_def)
  with v t show ?thesis by blast
qed

text \<open>
  A metadata update in the list of calls comes from a visit of the record that has a
  field other than \<open>timestamp\<close>, whatever else happens.
\<close>

lemma importPage_meta_call_origin:
  fixes page :: "('b, 't, 'v) ExportedPage"
  assumes "UpdateTimestampMeta u t m \<in> set (fst (importPage rejects page))"
  shows "\<exists>vs. visits page = Some vs \<and>
              (\<exists>v \<in> set vs. meta v \<noteq> [] \<and> u = url page \<and> t = timestamp v \<and> m = meta v)"
proof (cases "visits page")
  case None
  with assms show ?thesis by (simp add: importPage_def)
next
  case (Some vs)
  have "UpdateTimestampMeta u t m
          \<in> set (concat (map (visitMetaCalls (url page)) vs) :: ('b, 't, 'v) call list)"
    using assms Some
    by (auto simp: importPage_def Let_def split: option.splits if_splits)
  then have "\<exists>v \<in> set vs. meta v \<noteq> [] \<and> u = url page \<and> t = timestamp v \<and> m = meta v"
    unfolding set_concat_visitMetaCalls by auto
  with Some show ?thesis by simp
qed

text \<open>
  C6, as stated, fails: the record \<open>page_without_tags\<close> has a visit with a \<open>duration\<close>
  field, yet no metadata update is made for it, because reading \<open>page.tags.map\<close> throws
  before the updates are reached.
\<close>

theorem importPage_updates_meta_iff_counterexample:
  "visits page_without_tags = Some [visit_plain, visit_meta] \<and>
   meta visit_meta = [(''duration'', 3)] \<and>
   importPage never_rejects page_without_tags
     = ([AddPage (addPageArg page_without_tags [visit_plain, visit_meta])], Some TypeError) \<and>
   UpdateTimestampMeta (url page_without_tags) (timestamp visit_meta) (meta visit_meta)
     \<notin> set (fst (importPage never_rejects page_without_tags))"
  by (simp add: page_without_tags_def example_page_def visit_meta_def importPage_def
        never_rejects_def)

text \<open>
  C6, amended. Whatever the record and whatever rejects, every \<open>updateTimestampMeta\<close>
  call that \<open>importPage\<close> makes is for a visit of the record that has a field other than
  \<open>timestamp\<close>, with the record's \<open>url\<close>, that visit's timestamp and its other fields: a
  visit consisting of a timestamp alone triggers no metadata update. When the record
  has its tags and \<open>addPage\<close> and every \<open>addTag\<close> resolve, the converse holds too: the
  call is made for a visit exactly when it has a field other than \<open>timestamp\<close>, and the
  metadata updates are these calls, one per such visit, in the order of the visits.
\<close>

theorem importPage_updates_meta_iff:
  fixes page :: "('b, 't, 'v) ExportedPage"
  shows "(\<forall>u t m. UpdateTimestampMeta u t m \<in> set (fst (importPage rejects page)) \<longrightarrow>
            (\<exists>vs'. visits page = Some vs' \<and>
               (\<exists>v \<in> set vs'. meta v \<noteq> [] \<and> u = url page \<and> t = timestamp v \<and> m = meta v))) \<and>
         (visits page = Some vs \<and> tags page = Some ts \<and>
          \<not> rejects (AddPage (addPageArg page vs)) \<and>
          \<not> list_ex rejects (map (\<lambda>tag. AddTag (url page) tag) ts) \<longrightarrow>
            (\<forall>visit \<in> set vs.
               UpdateTimestampMeta (url page) (timestamp visit) (meta visit)
                 \<in> set (fst (importPage rejects page)) \<longleftrightarrow> meta visit \<noteq> []) \<and>
            filter (\<lambda>c. \<exists>u t m. c = UpdateTimestampMeta u t m) (fst (importPage rejects page))
              = map (\<lambda>v. UpdateTimestampMeta (url page) (timestamp v) (meta v))
                  (filter (\<lambda>v. meta v \<noteq> []) vs))"
proof -
  have onlyif: "\<forall>u t m. UpdateTimestampMeta u t m \<in> set (fst (importPage rejects page)) \<longrightarrow>
            (\<exists>vs'. visits page = Some vs' \<and>
               (\<exists>v \<in> set vs'. meta v \<noteq> [] \<and> u = url page \<and> t = timestamp v \<and> m = meta v))"
    using importPage_meta_call_origin [of _ _ _ rejects page] by blast
  have both: "(\<forall>visit \<in> set vs.
               UpdateTimestampMeta (url page) (timestamp visit) (meta visit)
                 \<in> set (fst (importPage rejects page)) \<longleftrightarrow> meta visit \<noteq> []) \<and>
            filter (\<lambda>c. \<exists>u t m. c = UpdateTimestampMeta u t m) (fst (importPage rejects page))
              = map (\<lambda>v. UpdateTimestampMeta (url page) (timestamp v) (meta v))
                  (filter (\<lambda>v. meta v \<noteq> []) vs)"
    if v: "visits page = Some vs" and t: "tags page = Some ts"
      and r1: "\<not> rejects (AddPage (addPageArg page vs))"
      and r2: "\<not> list_ex rejects (map (\<lambda>tag. AddTag (url page) tag) ts)"
  proof -
    let ?metaCalls = "concat (map (visitMetaCalls (url page)) vs) :: ('b, 't, 'v) call list"
    have calls: "fst (importPage rejects page)
                   = AddPage (addPageArg page vs) # map (\<lambda>tag. AddTag (url page) tag) ts
                     @ ?metaCalls"
      using importPage_calls [of page vs ts rejects, OF v t r1] r2 by simp
    have a: "UpdateTimestampMeta (url page) (timestamp visit) (meta visit)
               \<in> set (fst (importPage rejects page)) \<longleftrightarrow> meta visit \<noteq> []"
      if "visit \<in> set vs" for visit
    proof -
      have "UpdateTimestampMeta (url page) (timestamp visit) (meta visit) \<in> set ?metaCalls
              \<longleftrightarrow> meta visit \<noteq> []"
        unfolding set_concat_visitMetaCalls using that by auto
      then show ?thesis unfolding calls by auto
    qed
    have f1: "filter (\<lambda>c. \<exists>u t m. c = UpdateTimestampMeta u t m)
                (map (\<lambda>tag. AddTag (url page) tag) ts) = []"
      by (induction ts) simp_all
    have f2: "filter (\<lambda>c. \<exists>u t m. c = UpdateTimestampMeta u t m) ?metaCalls = ?metaCalls"
      unfolding concat_visitMetaCalls by (simp add: filter_map comp_def)
    have b: "filter (\<lambda>c. \<exists>u t m. c = UpdateTimestampMeta u t m) (fst (importPage rejects page))
             = map (\<lambda>v. UpdateTimestampMeta (url page) (timestamp v) (meta v))
                 (filter (\<lambda>v. meta v \<noteq> []) vs)"
      unfolding calls using f1 f2 by (simp add: concat_visitMetaCalls)
    from a b show ?thesis by blast
  qed
  from onlyif both show ?thesis by blast
qed

theorem importPage_updates_meta_iff_witness:
  "visits example_page = Some [visit_plain, visit_meta] \<and>
   tags example_page = Some [''news'', ''tech''] \<and>
   \<not> never_rejects (AddPage (addPageArg example_page [visit_plain, visit_meta])) \<and>
   \<not> list_ex never_rejects (map (\<lambda>tag. AddTag (url example_page) tag) [''news'', ''tech'']) \<and>
   UpdateTimestampMeta (Some ''a.com/x'') 10 []
     \<notin> set (fst (importPage never_rejects example_page)) \<and>
   UpdateTimestampMeta (Some ''a.com/x'') 20 [(''duration'', 3)]
     \<in> set (fst (importPage never_rejects example_page)) \<and>
   filter (\<lambda>c. \<exists>u t m. c = UpdateTimestampMeta u t m)
       (fst (importPage never_rejects example_page))
     = [UpdateTimestampMeta (Some ''a.com/x'') 20 [(''duration'', 3)]]"
proof -
  have v: "visits example_page = Some [visit_plain, visit_meta]"
    and t: "tags example_page = Some [''news'', ''tech'']"
    by (simp_all add: example_page_def)
  have r1: "\<not> never_rejects (AddPage (addPageArg example_page [visit_plain, visit_meta]))"
    by (simp add: never_rejects_def)
  have r2: "\<not> list_ex never_rejects
                (map (\<lambda>tag. AddTag (url example_page) tag) [''news'', ''tech''])"
    by (simp add: never_rejects_def)
  note inst = importPage_updates_meta_iff
               [where page = example_page and rejects = never_rejects
                  and vs = "[visit_plain, visit_meta]" and ts = "[''news'', ''tech'']"]
  have a: "UpdateTimestampMeta (Some ''a.com/x'') 10 []
             \<notin> set (fst (importPage never_rejects example_page))"
  proof
    assume "UpdateTimestampMeta (Some ''a.com/x'') 10 []
              \<in> set (fst (importPage never_rejects example_page))"
    with inst obtain v :: "(int, int) ExportedPageVisit" where "meta v \<noteq> []" and "[] = meta v"
      by blast
    then show False by simp
  qed
  from inst v t r1 r2
  have iff: "\<forall>visit \<in> set [visit_plain, visit_meta].
               UpdateTimestampMeta (url example_page) (timestamp visit) (meta visit)
                 \<in> set (fst (importPage never_rejects example_page)) \<longleftrightarrow> meta visit \<noteq> []"
    and flt: "filter (\<lambda>c. \<exists>u t m. c = UpdateTimestampMeta u t m)
                (fst (importPage never_rejects example_page))
              = map (\<lambda>v. UpdateTimestampMeta (url example_page) (timestamp v) (meta v))
                  (filter (\<lambda>v. meta v \<noteq> []) [visit_plain, visit_meta])"
    by blast+
  from iff have b: "UpdateTimestampMeta (Some ''a.com/x'') 20 [(''duration'', 3)]
             \<in> set (fst (importPage never_rejects example_page))"
    by (simp add: example_page_def visit_plain_def visit_meta_def)
  from flt have c: "filter (\<lambda>c. \<exists>u t m. c = UpdateTimestampMeta u t m)
              (fst (importPage never_rejects example_page))
            = [UpdateTimestampMeta (Some ''a.com/x'') 20 [(''duration'', 3)]]"
    by (simp add: example_page_def visit_plain_def visit_meta_def)
  from v t r1 r2 a b c show ?thesis by blast
qed

text \<open>
  C8. \<open>importPage\<close> reads \<open>page.visits\<close> and \<open>page.tags\<close> without a check. For a record
  that has both, it never ends in the error of reading a property of \<open>undefined\<close>. For a
  record without \<open>visits\<close>, and such records exist, it ends in that error before any
  call is made, so nothing is stored.
\<close>

theorem importPage_undefined_dereference:
  "(visits page \<noteq> None \<and> tags page \<noteq> None \<longrightarrow>
      snd (importPage rejects page) \<noteq> Some TypeError) \<and>
   (visits page' = None \<longrightarrow> importPage rejects page' = ([], Some TypeError)) \<and>
   (\<exists>q. visits q = None \<and> importPage rejects q = ([], Some TypeError))"
proof -
  have a: "snd (importPage rejects page) \<noteq> Some TypeError"
    if "visits page \<noteq> None" "tags page \<noteq> None"
    using that by (auto simp: importPage_def Let_def split: if_splits)
  have b: "importPage rejects q = ([], Some TypeError)" if "visits q = None" for q
    using that by (simp add: importPage_def)
  have "visits (page\<lparr>visits := None\<rparr>) = None" by simp
  with b have "\<exists>q. visits q = None \<and> importPage rejects q = ([], Some TypeError)" by blast
  with a b show ?thesis by blast
qed

theorem importPage_undefined_dereference_witness:
  "visits example_page \<noteq> None \<and> tags example_page \<noteq> None \<and>
   snd (importPage (\<lambda>c. False) example_page) = None \<and>
   visits (example_page\<lparr>visits := None\<rparr>) = None \<and>
   importPage (\<lambda>c. False) (example_page\<lparr>visits := None\<rparr>) = ([], Some TypeError)"
  using importPage_undefined_dereference
          [of example_page "\<lambda>c. False" "example_page\<lparr>visits := None\<rparr>"]
  by (simp add: example_page_def importPage_def visitMetaCalls_def
        visit_plain_def visit_meta_def)

section \<open>Selecting a tag in the dropdown\<close>

lemma findIndex_notin: "\<forall>x \<in> set xs. \<not> P x \<Longrightarrow> findIndex P xs = - 1"
  by (induction xs) simp_all

lemma slice_0_0: "slice xs 0 0 = []"
  by (simp add: slice_def)

lemma slice_from_1: "slice_from (x # xs) 1 = xs"
  by (simp add: slice_from_def slice_def)

lemma length_getDisplayTags: "length (getDisplayTags s) = length (displayFilters s)"
  by (simp add: getDisplayTags_def)

lemma getDisplayTags_value:
  "i < length (displayFilters s) \<Longrightarrow> tag_value (getDisplayTags s ! i) = displayFilters s ! i"
  by (simp add: getDisplayTags_def nth_enumerate_eq)

text \<open>
  C10. Let \<open>t\<close> be the displayed tag at \<open>index\<close>, not among the filters. Selecting it puts
  it in front of the filters; selecting it again finds it at position 0 and removes it,
  which gives back exactly the filters there were. Both selections succeed.
\<close>

theorem double_toggle_restores_filters:
  assumes "0 \<le> index" and "nat index < length (displayFilters s)"
    and "displayFilters s ! nat index = t"
    and "t \<notin> set (filters s)"
  shows "\<exists>e1 s1 e2 s2.
           handleTagSelection p index s = Inr (e1, s1) \<and> filters s1 = t # filters s \<and>
           handleTagSelection p index s1 = Inr (e2, s2) \<and> filters s2 = filters s"
proof -
  let ?s1 = "s\<lparr>filters := t # filters s, focused := index\<rparr>"
  let ?e1 = "(if allowIndexUpdate p then [AddTagRPC (props_url p) t (tabId p)] else [])
             @ [OnFilterAdd t, UpdateLastActive]"
  let ?e2 = "(if allowIndexUpdate p then [DelTagRPC (props_url p) t (tabId p)] else [])
             @ [OnFilterDel t, UpdateLastActive]"
  have inr: "\<not> (index < 0 \<or> int (length (getDisplayTags s)) \<le> index)"
    using assms(1,2) by (simp add: length_getDisplayTags)
  have tag: "tag_value (getDisplayTags s ! nat index) = t"
    using assms(2,3) by (simp add: getDisplayTags_value)
  have nf: "findIndex (\<lambda>val. val = t) (filters s) = - 1"
    using assms(4) by (auto intro: findIndex_notin)
  have first: "handleTagSelection p index s = Inr (?e1, ?s1)"
    using inr tag nf by (simp add: handleTagSelection_def Let_def)
  have inr1: "\<not> (index < 0 \<or> int (length (getDisplayTags ?s1)) \<le> index)"
    using assms(1,2) by (simp add: length_getDisplayTags)
  have tag1: "tag_value (getDisplayTags ?s1 ! nat index) = t"
    using assms(2,3) by (simp add: getDisplayTags_value)
  have second: "handleTagSelection p index ?s1
                  = Inr (?e2, ?s1\<lparr>filters := filters s, focused := index\<rparr>)"
    using inr1 tag1 by (simp add: handleTagSelection_def Let_def slice_0_0 slice_from_1)
  from first second show ?thesis by simp
qed

theorem double_toggle_restores_filters_witness:
  "(0::int) \<le> 1 \<and> nat 1 < length (displayFilters example_state) \<and>
   displayFilters example_state ! nat 1 = ''news'' \<and>
   ''news'' \<notin> set (filters example_state) \<and>
   (\<exists>e1 s1 e2 s2.
      handleTagSelection example_props 1 example_state = Inr (e1, s1) \<and>
      filters s1 = [''news'', ''tech'', ''art''] \<and>
      handleTagSelection example_props 1 s1 = Inr (e2, s2) \<and>
      filters s2 = [''tech'', ''art''])"
proof -
  have a: "(0::int) \<le> 1" and b: "nat 1 < length (displayFilters example_state)"
    and c: "displayFilters example_state ! nat 1 = ''news''"
    and d: "''news'' \<notin> set (filters example_state)"
    by (simp_all add: example_state_def)
  from double_toggle_restores_filters [OF a b c d, of example_props]
  have "\<exists>e1 s1 e2 s2.
      handleTagSelection example_props 1 example_state = Inr (e1, s1) \<and>
      filters s1 = [''news'', ''tech'', ''art''] \<and>
      handleTagSelection example_props 1 s1 = Inr (e2, s2) \<and>
      filters s2 = [''tech'', ''art'']"
    by (simp add: example_state_def)
  with a b c d show ?thesis by blast
qed

end
